theory Spec2Isabelle
  imports Main "HOL-Library.Sublist"
begin

section \<open>PackageManager: the install and uninstall commands of main.py\<close>

text \<open>
  The theory embeds \<^verbatim>\<open>PackageManager.install\<close> and \<^verbatim>\<open>PackageManager.uninstall\<close>
  of \<^verbatim>\<open>src/PackageManager/main.py\<close>. Everything outside the Python process is
  explicit: the file system (does the environment directory exist, what dependency list
  does the manifest file hold), the installer (an oracle answering each
  \<^verbatim>\<open>subprocess.run\<close> from the state of the environment) and the sequence of external
  actions performed so far. Messages printed to the terminal are not modelled.
\<close>

subsection \<open>Python string operations\<close>

text \<open>\<^verbatim>\<open>s.split(sep)\<close> for a non-empty separator: cut at every leftmost occurrence.\<close>

fun py_split_aux :: "string \<Rightarrow> string \<Rightarrow> string \<Rightarrow> string list" where
  "py_split_aux sep acc [] = [acc]"
| "py_split_aux sep acc (c # cs) =
     (if prefix sep (c # cs) then acc # py_split_aux sep [] (drop (length sep - 1) cs)
      else py_split_aux sep (acc @ [c]) cs)"

definition py_split :: "string \<Rightarrow> string \<Rightarrow> string list" where
  "py_split sep s = py_split_aux sep [] s"

text \<open>
  \<^verbatim>\<open>a, b = s.rsplit(sep, 1)\<close> for a one-character separator: the text before and after
  the last occurrence; \<open>None\<close> when there is no occurrence (the unpacking then raises
  \<^verbatim>\<open>ValueError\<close>).
\<close>

fun rsplit1 :: "char \<Rightarrow> string \<Rightarrow> (string \<times> string) option" where
  "rsplit1 sep [] = None"
| "rsplit1 sep (c # cs) =
     (case rsplit1 sep cs of
        Some (a, b) \<Rightarrow> Some (c # a, b)
      | None \<Rightarrow> if c = sep then Some ([], cs) else None)"

text \<open>\<^verbatim>\<open>sub in s\<close> on strings.\<close>

fun py_contains :: "string \<Rightarrow> string \<Rightarrow> bool" where
  "py_contains sub [] = (sub = [])"
| "py_contains sub (c # cs) = (prefix sub (c # cs) \<or> py_contains sub cs)"

subsection \<open>\<^verbatim>\<open>re.findall(r"requires (.+?),", text)\<close>\<close>

text \<open>
  After the literal \<^verbatim>\<open>requires \<close> the lazy group takes one character that is not a
  newline and then as few further such characters as possible up to the next comma.
  \<open>lazy_group\<close> returns the group and the text after the comma.
\<close>

fun until_comma :: "string \<Rightarrow> string \<Rightarrow> (string \<times> string) option" where
  "until_comma acc [] = None"
| "until_comma acc (c # cs) =
     (if c = CHR '','' then Some (acc, cs)
      else if c = CHR 0x0A then None
      else until_comma (acc @ [c]) cs)"

definition lazy_group :: "string \<Rightarrow> (string \<times> string) option" where
  "lazy_group s =
     (case s of
        [] \<Rightarrow> None
      | c # cs \<Rightarrow> if c = CHR 0x0A then None else until_comma [c] cs)"

lemma until_comma_shorter: "until_comma acc s = Some (g, rest) \<Longrightarrow> length rest < length s"
proof (induction s arbitrary: acc)
  case Nil
  then show ?case by simp
next
  case (Cons c cs)
  show ?case
  proof (cases "c = CHR '',''")
    case True
    with Cons.prems show ?thesis by simp
  next
    case False
    with Cons.prems have "until_comma (acc @ [c]) cs = Some (g, rest)"
      by (simp split: if_splits)
    then have "length rest < length cs" by (rule Cons.IH)
    then show ?thesis by simp
  qed
qed

lemma lazy_group_shorter: "lazy_group s = Some (g, rest) \<Longrightarrow> length rest < length s"
  by (cases s) (auto simp: lazy_group_def split: if_splits dest: until_comma_shorter)

function findall_requires :: "string \<Rightarrow> string list" where
  "findall_requires [] = []"
| "findall_requires (c # cs) =
     (if prefix ''requires '' (c # cs) then
        (case lazy_group (drop 9 (c # cs)) of
           Some (g, rest) \<Rightarrow> g # findall_requires rest
         | None \<Rightarrow> findall_requires cs)
      else findall_requires cs)"
  by pat_completeness auto
termination
proof (relation "measure length")
  fix c :: char and cs x2 x y
  assume "lazy_group (drop 9 (c # cs)) = Some x2" and "(x, y) = x2"
  then have "length y < length (drop 9 (c # cs))"
    using lazy_group_shorter [of "drop 9 (c # cs)" x y] by simp
  then show "(y, c # cs) \<in> measure length" by simp
qed auto

subsection \<open>The world outside the process\<close>

text \<open>
  \<^verbatim>\<open>subprocess.run(cmd, capture_output=True)\<close> returns a completed process (exit code and
  decoded standard output) or raises when the program cannot be started. The installer is
  an oracle \<open>run\<close>: from the command line and the state of the environment it gives the
  outcome and the new state of the environment. \<open>create\<close> is what
  \<^verbatim>\<open>virtualenv.cli_run\<close> does to the state of the environment.
\<close>

record completed =
  returncode :: int
  stdout :: string

record 'e system =
  win32 :: bool
  executable :: string
  run :: "string list \<Rightarrow> 'e \<Rightarrow> completed option \<times> 'e"
  create :: "'e \<Rightarrow> 'e"

datatype event =
    CreateVenv
  | Load
  | Save "string list"
  | Run "string list"

text \<open>The dependency lists written to the manifest file, in the order of the writes.\<close>

fun saves :: "event list \<Rightarrow> string list list" where
  "saves [] = []"
| "saves (Save deps # evs) = deps # saves evs"
| "saves (ev # evs) = saves evs"

text \<open>The command lines given to \<^verbatim>\<open>subprocess.run\<close>, in order.\<close>

fun runs :: "event list \<Rightarrow> string list list" where
  "runs [] = []"
| "runs (Run cmd # evs) = cmd # runs evs"
| "runs (ev # evs) = runs evs"

text \<open>
  The installer's subcommand is the second word of a command line; \<open>install_calls\<close> are
  the command lines of the \<^verbatim>\<open>install\<close> subcommand among those given to
  \<^verbatim>\<open>subprocess.run\<close>.
\<close>

definition subcommand :: "string list \<Rightarrow> string" where
  "subcommand cmd = (case cmd of _ # c # _ \<Rightarrow> c | _ \<Rightarrow> [])"

definition install_calls :: "event list \<Rightarrow> string list list" where
  "install_calls evs = filter (\<lambda>cmd. subcommand cmd = ''install'') (runs evs)"

text \<open>
  \<open>manifest\<close> is the dependency list held by the manifest file. The class
  \<^verbatim>\<open>PyProject\<close> lives in \<^verbatim>\<open>config_file.py\<close>, which is not among the sources.
  Modelled from the spec: \<^verbatim>\<open>PyProject(path)\<close> loads the document,
  \<^verbatim>\<open>config["project"]["dependencies"]\<close> is its ordered dependency sequence (the list
  object itself, which \<^verbatim>\<open>main.py\<close> appends to and removes from in place), and
  \<^verbatim>\<open>config.save()\<close> persists it to the original path.
\<close>

record 'e world =
  env_exists :: bool
  manifest :: "string list"
  env :: "'e"
  trace :: "event list"

datatype error =
    Exception string
  | ValueError
  | IndexError
  | OSError

definition envPath :: string where
  "envPath = ''.ppm.env''"

definition BIN_FOLDER :: "'e system \<Rightarrow> string" where
  "BIN_FOLDER sys = (if win32 sys then ''Scripts'' else ''bin'')"

definition GLOBAL_PIP_EXECUTABLE :: "'e system \<Rightarrow> string" where
  "GLOBAL_PIP_EXECUTABLE sys = executable sys @ '' -m pip''"

definition env_pip :: "'e system \<Rightarrow> string" where
  "env_pip sys = envPath @ ''/'' @ BIN_FOLDER sys @ ''/pip''"

definition log :: "event \<Rightarrow> 'e world \<Rightarrow> 'e world" where
  "log ev w = w\<lparr>trace := trace w @ [ev]\<rparr>"

definition sp_run :: "'e system \<Rightarrow> string list \<Rightarrow> 'e world \<Rightarrow> completed option \<times> 'e world" where
  "sp_run sys cmd w =
     (case run sys cmd (env w) of
        (res, e') \<Rightarrow> (res, log (Run cmd) (w\<lparr>env := e'\<rparr>)))"

definition createVenv :: "'e system \<Rightarrow> 'e world \<Rightarrow> 'e world" where
  "createVenv sys w = log CreateVenv (w\<lparr>env_exists := True, env := create sys (env w)\<rparr>)"

definition load :: "'e world \<Rightarrow> string list \<times> 'e world" where
  "load w = (manifest w, log Load w)"

definition save :: "string list \<Rightarrow> 'e world \<Rightarrow> 'e world" where
  "save config w = log (Save config) (w\<lparr>manifest := config\<rparr>)"

text \<open>
  From \<open>w\<close> to \<open>w'\<close> the manifest was written at most as many times as the
  \<^verbatim>\<open>install\<close> subcommand was called.
\<close>

definition le_calls :: "'e world \<Rightarrow> 'e world \<Rightarrow> bool" where
  "le_calls w w' \<longleftrightarrow>
     length (saves (trace w')) + length (install_calls (trace w))
       \<le> length (saves (trace w)) + length (install_calls (trace w'))"

subsection \<open>\<^verbatim>\<open>PackageManager.install\<close>\<close>

definition getInstalledPackages ::
  "'e system \<Rightarrow> bool \<Rightarrow> 'e world \<Rightarrow> (error + string list) \<times> 'e world" where
  "getInstalledPackages sys glob w =
     (case sp_run sys [if glob then GLOBAL_PIP_EXECUTABLE sys else env_pip sys, ''freeze''] w of
        (None, w') \<Rightarrow> (Inl OSError, w')
      | (Some res, w') \<Rightarrow>
          if returncode res \<noteq> 0
          then (Inl (Exception ''Failed to get installed packages (exit code: {res.returncode})''), w')
          else (Inr (py_split [CHR 0x0A] (stdout res)), w'))"

text \<open>
  The two nested loops of \<open>installPackage\<close> over the lines of the installer's output and
  over the tokens of a \<^verbatim>\<open>Successfully installed\<close> line. The dependency list is
  returned as it stands when the unpacking of \<^verbatim>\<open>rsplit\<close> raises.
\<close>

fun add_packages :: "string list \<Rightarrow> string list \<Rightarrow> error option \<times> string list" where
  "add_packages [] deps = (None, deps)"
| "add_packages (p # ps) deps =
     (case rsplit1 CHR ''-'' p of
        None \<Rightarrow> (Some ValueError, deps)
      | Some (name, version) \<Rightarrow>
          add_packages ps
            (if name @ ''=='' @ version \<in> set deps then deps
             else deps @ [name @ ''=='' @ version]))"

fun process_lines :: "string list \<Rightarrow> string list \<Rightarrow> error option \<times> string list" where
  "process_lines [] deps = (None, deps)"
| "process_lines (l # ls) deps =
     (if prefix ''Successfully installed'' l then
        (case add_packages (drop 2 (py_split '' '' l)) deps of
           (Some e, deps') \<Rightarrow> (Some e, deps')
         | (None, deps') \<Rightarrow> process_lines ls deps')
      else process_lines ls deps)"

text \<open>
  \<open>installPackage\<close> returns the exit code of a failing installer call, \<^verbatim>\<open>None\<close> after a
  successful global install (the function falls off its end) and 0 after a successful
  isolated install, which saves the manifest.
\<close>

definition installPackage ::
  "'e system \<Rightarrow> bool \<Rightarrow> string \<Rightarrow> string option \<Rightarrow> bool \<Rightarrow> string list \<Rightarrow> 'e world
     \<Rightarrow> (error + int option) \<times> string list \<times> 'e world" where
  "installPackage sys glob package version installDeps config w =
     (let package' = (case version of
                        None \<Rightarrow> package
                      | Some v \<Rightarrow> if v = [] then package else package @ ''=='' @ v);
          cmd = [if glob then GLOBAL_PIP_EXECUTABLE sys else env_pip sys, ''install'', package']
                  @ (if installDeps then [''--no-deps''] else [])
      in case sp_run sys cmd w of
           (None, w') \<Rightarrow> (Inl OSError, config, w')
         | (Some res, w') \<Rightarrow>
             if returncode res \<noteq> 0 then (Inr (Some (returncode res)), config, w')
             else if glob then (Inr None, config, w')
             else (case process_lines (py_split [CHR 0x0A] (stdout res)) config of
                     (Some e, config') \<Rightarrow> (Inl e, config', w')
                   | (None, config') \<Rightarrow> (Inr (Some 0), config', save config' w')))"

definition getMissingDependencies ::
  "'e system \<Rightarrow> 'e world \<Rightarrow> (error + string list) \<times> 'e world" where
  "getMissingDependencies sys w =
     (case sp_run sys [env_pip sys, ''check''] w of
        (None, w') \<Rightarrow> (Inl OSError, w')
      | (Some res, w') \<Rightarrow>
          if returncode res \<noteq> 0
          then (Inl (Exception ''Failed to check for missing dependencies''), w')
          else (Inr (findall_requires (stdout res)), w'))"

text \<open>
  The loop over the requested names. The value \<open>installPackage\<close> returns is dropped, as
  in the source; an exception ends the loop.
\<close>

fun names_loop ::
  "'e system \<Rightarrow> bool \<Rightarrow> string list \<Rightarrow> string list \<Rightarrow> string list \<Rightarrow> 'e world
     \<Rightarrow> error option \<times> string list \<times> 'e world" where
  "names_loop sys glob installed [] config w = (None, config, w)"
| "names_loop sys glob installed (package # rest) config w =
     (if package \<notin> set installed then
        (case installPackage sys glob package None False config w of
           (Inl e, config', w') \<Rightarrow> (Some e, config', w')
         | (Inr _, config', w') \<Rightarrow> names_loop sys glob installed rest config' w')
      else names_loop sys glob installed rest config w)"

text \<open>
  The loop over \<^verbatim>\<open>deps = config["project"]["dependencies"]\<close> when no name is requested.
  \<^verbatim>\<open>deps\<close> is the list \<open>installPackage\<close> appends to, and a Python \<^verbatim>\<open>for\<close> over a
  list visits index 0, 1, ... until the index reaches the current length, so entries
  appended during the loop are visited too. The loop needs not end; \<open>k\<close> bounds the number
  of iterations and \<open>None\<close> says the bound was reached.
\<close>

fun deps_loop ::
  "nat \<Rightarrow> 'e system \<Rightarrow> bool \<Rightarrow> string list \<Rightarrow> nat \<Rightarrow> string list \<Rightarrow> 'e world
     \<Rightarrow> (error option \<times> string list \<times> 'e world) option" where
  "deps_loop 0 sys glob installed i config w =
     (if length config \<le> i then Some (None, config, w) else None)"
| "deps_loop (Suc k) sys glob installed i config w =
     (if length config \<le> i then Some (None, config, w)
      else if config ! i \<notin> set installed then
        (case installPackage sys glob (config ! i) None False config w of
           (Inl e, config', w') \<Rightarrow> Some (Some e, config', w')
         | (Inr _, config', w') \<Rightarrow> deps_loop k sys glob installed (Suc i) config' w')
      else deps_loop k sys glob installed (Suc i) config w)"

text \<open>
  The loop \<^verbatim>\<open>for dep in missingDeps: self.install([dep], _global)\<close>, with the recursive
  call as a parameter. The value of the call is dropped; an exception ends the loop.
\<close>

fun for_missing ::
  "(string \<Rightarrow> 'e world \<Rightarrow> ((error + int) \<times> 'e world) option) \<Rightarrow> string list \<Rightarrow> 'e world
     \<Rightarrow> ((error + int) \<times> 'e world) option" where
  "for_missing rec [] w = Some (Inr 0, w)"
| "for_missing rec (dep # deps) w =
     (case rec dep w of
        None \<Rightarrow> None
      | Some (Inl e, w') \<Rightarrow> Some (Inl e, w')
      | Some (Inr _, w') \<Rightarrow> for_missing rec deps w')"

text \<open>
  \<open>install\<close> calls itself for every missing dependency the check reports, with no bound
  in the source. The first argument bounds the depth of the recursion (and the iterations
  of the loop over the manifest's dependencies): \<open>None\<close> says that the bound was reached
  before the command returned. A result \<open>Inl e\<close> is an exception that leaves
  \<open>install\<close>, \<open>Inr c\<close> the value it returns.
\<close>

fun install ::
  "nat \<Rightarrow> 'e system \<Rightarrow> string list \<Rightarrow> bool \<Rightarrow> 'e world \<Rightarrow> ((error + int) \<times> 'e world) option" where
  "install 0 sys names glob w = None"
| "install (Suc n) sys names glob w =
     (case load w of
        (config, w1) \<Rightarrow>
          (case getInstalledPackages sys glob
                  (if \<not> env_exists w1 then createVenv sys w1 else w1) of
             (Inl e, w3) \<Rightarrow> Some (Inl e, w3)
           | (Inr installedPackages, w3) \<Rightarrow>
               (case (if names = [] then deps_loop n sys glob installedPackages 0 config w3
                      else Some (names_loop sys glob installedPackages names config w3)) of
                  None \<Rightarrow> None
                | Some (Some e, config', w4) \<Rightarrow> Some (Inl e, w4)
                | Some (None, config', w4) \<Rightarrow>
                    (case getMissingDependencies sys w4 of
                       (Inl e, w5) \<Rightarrow> Some (Inl e, w5)
                     | (Inr missingDeps, w5) \<Rightarrow>
                         for_missing (\<lambda>dep. install n sys [dep] glob) missingDeps w5))))"

subsection \<open>\<^verbatim>\<open>PackageManager.uninstall\<close>\<close>

text \<open>
  The inner \<^verbatim>\<open>for dep in deps\<close> of the bare-name case: the first entry whose text before
  \<^verbatim>\<open>==\<close> is the name. \<open>None\<close> is the \<^verbatim>\<open>else\<close> of the loop (no entry matched);
  \<^verbatim>\<open>dep.split("==")[1]\<close> raises \<^verbatim>\<open>IndexError\<close> when the matching entry has no
  \<^verbatim>\<open>==\<close>.
\<close>

fun find_dep :: "string \<Rightarrow> string list \<Rightarrow> (error + string \<times> string) option" where
  "find_dep name [] = None"
| "find_dep name (dep # deps) =
     (case py_split ''=='' dep of
        [] \<Rightarrow> find_dep name deps
      | [a] \<Rightarrow> if a = name then Some (Inl IndexError) else find_dep name deps
      | a # b # _ \<Rightarrow> if a = name then Some (Inr (dep, b)) else find_dep name deps)"

text \<open>
  The loop over the names of an isolated uninstall. It returns the exit code of a failing
  installer call at once, without saving; \<open>None\<close> as exit code says the loop ended and
  the caller saves. An installer that cannot be started is caught by the source's
  \<^verbatim>\<open>except Exception\<close> and the loop goes on.
\<close>

fun uninstall_loop ::
  "'e system \<Rightarrow> string list \<Rightarrow> string list \<Rightarrow> 'e world
     \<Rightarrow> (error + int option) \<times> string list \<times> 'e world" where
  "uninstall_loop sys [] deps w = (Inr None, deps, w)"
| "uninstall_loop sys (name # names) deps w =
     (case (if py_contains ''=='' name then
              (if name \<in> set deps then
                 (case py_split ''=='' name of
                    a # b # _ \<Rightarrow> Some (Inr (remove1 name deps, b))
                  | _ \<Rightarrow> Some (Inl IndexError))
               else None)
            else
              (case find_dep name deps of
                 None \<Rightarrow> None
               | Some (Inl e) \<Rightarrow> Some (Inl e)
               | Some (Inr (dep, version)) \<Rightarrow> Some (Inr (remove1 dep deps, version)))) of
        None \<Rightarrow> uninstall_loop sys names deps w
      | Some (Inl e) \<Rightarrow> (Inl e, deps, w)
      | Some (Inr (deps', version)) \<Rightarrow>
          (case sp_run sys [env_pip sys, ''uninstall'', ''-y'', name @ ''=='' @ version] w of
             (None, w') \<Rightarrow> uninstall_loop sys names deps' w'
           | (Some res, w') \<Rightarrow>
               if returncode res \<noteq> 0 then (Inr (Some (returncode res)), deps', w')
               else uninstall_loop sys names deps' w'))"

definition uninstall ::
  "'e system \<Rightarrow> string list \<Rightarrow> bool \<Rightarrow> 'e world \<Rightarrow> (error + int) \<times> 'e world" where
  "uninstall sys names glob w =
     (if \<not> env_exists w then (Inr 1, w)
      else case load w of (config, w1) \<Rightarrow>
        if glob then
          (case sp_run sys ([GLOBAL_PIP_EXECUTABLE sys, ''uninstall'', ''-y''] @ names) w1 of
             (None, w2) \<Rightarrow> (Inl OSError, w2)
           | (Some res, w2) \<Rightarrow> (Inr (returncode res), w2))
        else
          (case uninstall_loop sys names config w1 of
             (Inl e, deps, w2) \<Rightarrow> (Inl e, w2)
           | (Inr (Some c), deps, w2) \<Rightarrow> (Inr c, w2)
           | (Inr None, deps, w2) \<Rightarrow> (Inr 0, save deps w2)))"

section \<open>Concrete installers and worlds\<close>

text \<open>
  Installers without a state of their own, answering from the command line alone, on a
  POSIX platform, and worlds to run the commands in. The global command of the source is
  the one string \<^verbatim>\<open>python -m pip\<close>, given to \<^verbatim>\<open>subprocess.run\<close> as the name of
  the program, with no shell: no program has that name, and the call raises
  \<^verbatim>\<open>FileNotFoundError\<close>. The installers here answer so.
\<close>

definition scripted :: "(string list \<Rightarrow> completed) \<Rightarrow> unit system" where
  "scripted f =
     \<lparr>win32 = False, executable = ''python'',
      run = (\<lambda>cmd e. (if take 1 cmd = [''python -m pip''] then None else Some (f cmd), e)),
      create = (\<lambda>e. e)\<rparr>"

definition last_arg :: "string list \<Rightarrow> string" where
  "last_arg cmd = (case rev cmd of a # _ \<Rightarrow> a | _ \<Rightarrow> [])"

text \<open>Every command exits 0 and prints nothing.\<close>

definition pip_ok :: "unit system" where
  "pip_ok = scripted (\<lambda>cmd. \<lparr>returncode = 0, stdout = []\<rparr>)"

text \<open>The installation of the package \<^verbatim>\<open>a\<close> exits 1; every other command exits 0.\<close>

definition pip_fail_a :: "unit system" where
  "pip_fail_a = scripted (\<lambda>cmd.
     \<lparr>returncode = (if subcommand cmd = ''install'' \<and> last_arg cmd = ''a'' then 1 else 0),
      stdout = []\<rparr>)"

text \<open>The environment holds \<^verbatim>\<open>requests==2.26.0\<close>.\<close>

definition pip_frozen :: "unit system" where
  "pip_frozen = scripted (\<lambda>cmd.
     \<lparr>returncode = 0,
      stdout = (if subcommand cmd = ''freeze'' then ''requests==2.26.0'' @ [CHR 0x0A] else [])\<rparr>)"

text \<open>Every installation reports the package it was asked for, at version 1.0.\<close>

definition pip_reporting :: "unit system" where
  "pip_reporting = scripted (\<lambda>cmd.
     \<lparr>returncode = 0,
      stdout = (if subcommand cmd = ''install''
                then ''Successfully installed '' @ last_arg cmd @ ''-1.0'' @ [CHR 0x0A]
                else [])\<rparr>)"

text \<open>The check exits 1 and reports one unmet requirement, as \<^verbatim>\<open>pip check\<close> does.\<close>

definition pip_problems :: "unit system" where
  "pip_problems = scripted (\<lambda>cmd.
     if subcommand cmd = ''check''
     then \<lparr>returncode = 1, stdout = ''a 1.0 requires b, which is not installed.'' @ [CHR 0x0A]\<rparr>
     else \<lparr>returncode = 0, stdout = []\<rparr>)"

text \<open>
  A check that exits 0 and yet reports that A requires B and B requires A: an installer
  on which \<open>getMissingDependencies\<close> gets to parse names. (\<^verbatim>\<open>pip check\<close> itself exits
  with an error when it reports them, as \<open>pip_problems\<close> does.)
\<close>

definition pip_cycle :: "unit system" where
  "pip_cycle = scripted (\<lambda>cmd.
     \<lparr>returncode = 0,
      stdout = (if subcommand cmd = ''check''
                then ''A 1.0 requires B, which is not installed.'' @ [CHR 0x0A]
                       @ ''B 1.0 requires A, which is not installed.'' @ [CHR 0x0A]
                else [])\<rparr>)"

text \<open>A world with an environment and the given dependency list in its manifest.\<close>

definition world_of :: "string list \<Rightarrow> unit world" where
  "world_of deps = \<lparr>env_exists = True, manifest = deps, env = (), trace = []\<rparr>"

text \<open>A world with a manifest and no environment.\<close>

definition no_env_world :: "unit world" where
  "no_env_world = \<lparr>env_exists = False, manifest = [''requests==2.26.0''], env = (), trace = []\<rparr>"





lemmas model_defs =
  scripted_def subcommand_def last_arg_def world_of_def load_def save_def log_def sp_run_def
  createVenv_def envPath_def BIN_FOLDER_def GLOBAL_PIP_EXECUTABLE_def env_pip_def
  getInstalledPackages_def getMissingDependencies_def installPackage_def uninstall_def
  py_split_def lazy_group_def

section \<open>Properties\<close>

subsection \<open>The bound on the recursion\<close>

text \<open>
  The bound decides only whether \<open>install\<close> gets to its result, never which result: a
  result reached within a bound is the result within every larger bound.
\<close>

lemma deps_loop_Suc:
  "deps_loop k sys glob installed i config w = Some x \<Longrightarrow>
   deps_loop (Suc k) sys glob installed i config w = Some x"
proof (induction k arbitrary: i config w)
  case 0
  then show ?case by (simp split: if_splits)
next
  case (Suc k)
  show ?case
  proof (cases "length config \<le> i")
    case True
    with Suc.prems show ?thesis by simp
  next
    case False
    note notend = this
    show ?thesis
    proof (cases "config ! i \<in> set installed")
      case True
      with notend Suc.prems have "deps_loop k sys glob installed (Suc i) config w = Some x"
        by simp
      then have "deps_loop (Suc k) sys glob installed (Suc i) config w = Some x"
        by (rule Suc.IH)
      with True notend show ?thesis by simp
    next
      case False
      obtain r1 c1 w1 where ip: "installPackage sys glob (config ! i) None False config w = (r1, c1, w1)"
        by (cases "installPackage sys glob (config ! i) None False config w")
      show ?thesis
      proof (cases r1)
        case (Inl e)
        with False notend ip Suc.prems show ?thesis by simp
      next
        case (Inr c)
        with False notend ip Suc.prems
        have "deps_loop k sys glob installed (Suc i) c1 w1 = Some x" by simp
        then have "deps_loop (Suc k) sys glob installed (Suc i) c1 w1 = Some x"
          by (rule Suc.IH)
        with Inr False notend ip show ?thesis by simp
      qed
    qed
  qed
qed

lemma for_missing_mono:
  assumes "\<And>dep w x. rec dep w = Some x \<Longrightarrow> rec' dep w = Some x"
  shows "for_missing rec deps w = Some x \<Longrightarrow> for_missing rec' deps w = Some x"
proof (induction deps arbitrary: w)
  case Nil
  then show ?case by simp
next
  case (Cons dep deps)
  from Cons.prems obtain r1 w1 where r1: "rec dep w = Some (r1, w1)"
    by (cases "rec dep w") auto
  then have r1': "rec' dep w = Some (r1, w1)" by (rule assms)
  show ?case
  proof (cases r1)
    case (Inl e)
    with r1 Cons.prems have "x = (Inl e, w1)" by simp
    with Inl r1' show ?thesis by simp
  next
    case (Inr c)
    with r1 Cons.prems have "for_missing rec deps w1 = Some x" by simp
    then have "for_missing rec' deps w1 = Some x" by (rule Cons.IH)
    with Inr r1' show ?thesis by simp
  qed
qed

lemma install_Suc:
  "install n sys names glob w = Some x \<Longrightarrow> install (Suc n) sys names glob w = Some x"
proof (induction n arbitrary: names w x)
  case 0
  then show ?case by simp
next
  case (Suc n)
  let ?w2 = "if \<not> env_exists (log Load w) then createVenv sys (log Load w) else log Load w"
  obtain ri w3 where gi: "getInstalledPackages sys glob ?w2 = (ri, w3)"
    by (cases "getInstalledPackages sys glob ?w2")
  show ?case
  proof (cases ri)
    case (Inl e)
    with gi Suc.prems show ?thesis by (simp add: load_def)
  next
    case (Inr installed)
    let ?pass = "\<lambda>k. if names = [] then deps_loop k sys glob installed 0 (manifest w) w3
                 else Some (names_loop sys glob installed names (manifest w) w3)"
    from Inr gi Suc.prems obtain rp c4 w4 where pass: "?pass n = Some (rp, c4, w4)"
      by (cases "?pass n") (auto simp: load_def)
    have pass': "?pass (Suc n) = Some (rp, c4, w4)"
    proof (cases "names = []")
      case True
      with pass have "deps_loop n sys glob installed 0 (manifest w) w3 = Some (rp, c4, w4)"
        by simp
      then have "deps_loop (Suc n) sys glob installed 0 (manifest w) w3 = Some (rp, c4, w4)"
        by (rule deps_loop_Suc)
      with True show ?thesis by (simp del: deps_loop.simps)
    next
      case False
      with pass show ?thesis by simp
    qed
    show ?thesis
    proof (cases rp)
      case (Some e)
      with Inr gi pass Suc.prems have "x = (Inl e, w4)" by (simp add: load_def)
      with Some Inr gi pass' show ?thesis by (simp add: load_def del: deps_loop.simps)
    next
      case None
      obtain rm w5 where gm: "getMissingDependencies sys w4 = (rm, w5)"
        by (cases "getMissingDependencies sys w4")
      show ?thesis
      proof (cases rm)
        case (Inl e)
        with None Inr gi pass gm Suc.prems have "x = (Inl e, w5)" by (simp add: load_def)
        with Inl None Inr gi pass' gm show ?thesis by (simp add: load_def del: deps_loop.simps)
      next
        case (Inr missing)
        with None \<open>ri = Inr installed\<close> gi pass gm Suc.prems
        have "for_missing (\<lambda>dep. install n sys [dep] glob) missing w5 = Some x"
          by (simp add: load_def)
        then have "for_missing (\<lambda>dep. install (Suc n) sys [dep] glob) missing w5 = Some x"
          by (rule for_missing_mono [rotated]) (rule Suc.IH)
        with None Inr \<open>ri = Inr installed\<close> gi pass' gm show ?thesis
          by (simp add: load_def del: deps_loop.simps)
      qed
    qed
  qed
qed

lemma install_mono:
  "n \<le> n' \<Longrightarrow> install n sys names glob w = Some x \<Longrightarrow> install n' sys names glob w = Some x"
  by (induction n' rule: dec_induct) (simp_all add: install_Suc del: install.simps)

subsection \<open>Exit codes, names and the snapshot\<close>

text \<open>
  C7. When no environment exists at the environment path, \<open>uninstall\<close> returns the
  non-zero code 1 at once, for every list of names and in both modes: nothing is loaded,
  no installer is run, nothing is saved, and the world is left exactly as it was.
\<close>

theorem uninstall_no_environment:
  "\<not> env_exists w \<Longrightarrow> uninstall sys names glob w = (Inr 1, w)"
  by (simp add: uninstall_def)

theorem uninstall_no_environment_witness:
  "\<not> env_exists no_env_world \<and>
   uninstall pip_ok [''requests''] False no_env_world = (Inr 1, no_env_world) \<and>
   uninstall pip_ok [''requests''] True no_env_world = (Inr 1, no_env_world)"
  using uninstall_no_environment [of no_env_world pip_ok "[''requests'']"]
  by (simp add: no_env_world_def)

text \<open>
  C1. What the code does where the claim expects the failure to be returned at once: the
  installation of \<^verbatim>\<open>a\<close> exits 1, \<open>installPackage\<close> returns that 1, the loop of
  \<open>install\<close> drops it, goes on to install \<^verbatim>\<open>b\<close>, runs the check and returns 0.
\<close>

theorem install_drops_failed_exit_code:
  "install 1 pip_fail_a [''a'', ''b''] False (world_of []) =
     Some (Inr 0,
       \<lparr>env_exists = True, manifest = [], env = (),
        trace = [Load,
                 Run [''.ppm.env/bin/pip'', ''freeze''],
                 Run [''.ppm.env/bin/pip'', ''install'', ''a''],
                 Run [''.ppm.env/bin/pip'', ''install'', ''b''],
                 Save [],
                 Run [''.ppm.env/bin/pip'', ''check'']]\<rparr>)"
  by (simp add: pip_fail_a_def model_defs)

text \<open>
  C2. What the code does where the claim expects the two forms of the name to behave
  alike: both remove the entry \<^verbatim>\<open>requests==2.26.0\<close>, but for the name given with its
  version the installer is run on \<^verbatim>\<open>requests==2.26.0==2.26.0\<close>, the name followed by
  the version a second time.
\<close>

theorem uninstall_versioned_name_repeats_version:
  "uninstall pip_ok [''requests==2.26.0''] False (world_of [''requests==2.26.0'']) =
     (Inr 0,
       \<lparr>env_exists = True, manifest = [], env = (),
        trace = [Load,
                 Run [''.ppm.env/bin/pip'', ''uninstall'', ''-y'', ''requests==2.26.0==2.26.0''],
                 Save []]\<rparr>) \<and>
   uninstall pip_ok [''requests''] False (world_of [''requests==2.26.0'']) =
     (Inr 0,
       \<lparr>env_exists = True, manifest = [], env = (),
        trace = [Load,
                 Run [''.ppm.env/bin/pip'', ''uninstall'', ''-y'', ''requests==2.26.0''],
                 Save []]\<rparr>)"
  by (simp add: pip_ok_def model_defs)

text \<open>
  C3, as the code has it. The test is \<^verbatim>\<open>package not in installedPackages\<close>: an entry
  is skipped when it is, as a whole string, one of the lines of the snapshot. Such entries
  contribute nothing to the pass over the requested names (the pass is the pass over the
  other entries: no installer call, the dependency list and the world untouched), and in
  the pass over the manifest's own dependencies such an entry is stepped over.
\<close>

theorem installed_entries_skipped:
  "names_loop sys glob installed names config w =
     names_loop sys glob installed (filter (\<lambda>package. package \<notin> set installed) names) config w
   \<and> (i < length config \<and> config ! i \<in> set installed \<longrightarrow>
        deps_loop (Suc k) sys glob installed i config w =
          deps_loop k sys glob installed (Suc i) config w)"
proof
  show "names_loop sys glob installed names config w =
     names_loop sys glob installed (filter (\<lambda>package. package \<notin> set installed) names) config w"
  proof (induction names arbitrary: config w)
    case Nil
    show ?case by simp
  next
    case (Cons package rest)
    show ?case
    proof (cases "package \<in> set installed")
      case True
      then show ?thesis using Cons.IH by simp
    next
      case False
      then show ?thesis using Cons.IH by (simp split: prod.splits sum.splits)
    qed
  qed
next
  show "i < length config \<and> config ! i \<in> set installed \<longrightarrow>
        deps_loop (Suc k) sys glob installed i config w =
          deps_loop k sys glob installed (Suc i) config w"
    by simp
qed

theorem installed_entries_skipped_witness:
  "names_loop pip_frozen False [''requests==2.26.0'', []] [''requests==2.26.0''] []
     (world_of []) = (None, [], world_of [])
   \<and> (0::nat) < length [''requests==2.26.0'']
   \<and> [''requests==2.26.0''] ! 0 \<in> set [''requests==2.26.0'', []]
   \<and> deps_loop (Suc 0) pip_frozen False [''requests==2.26.0'', []] 0 [''requests==2.26.0'']
        (world_of [''requests==2.26.0'']) =
      Some (None, [''requests==2.26.0''], world_of [''requests==2.26.0''])"
  using installed_entries_skipped [where sys = pip_frozen and glob = False
      and installed = "[''requests==2.26.0'', []]" and names = "[''requests==2.26.0'']"
      and config = "[]" and w = "world_of []" and i = 0 and k = 0]
    installed_entries_skipped [where sys = pip_frozen and glob = False
      and installed = "[''requests==2.26.0'', []]" and names = "[]"
      and config = "[''requests==2.26.0'']" and w = "world_of [''requests==2.26.0'']"
      and i = 0 and k = 0]
  by simp

text \<open>
  C3, as the claim states it, fails: the snapshot holds \<^verbatim>\<open>requests==2.26.0\<close>, the
  bare name \<^verbatim>\<open>requests\<close> is requested, and the installer is run for it (and the
  manifest is saved again).
\<close>

theorem bare_name_of_installed_package_is_installed_again:
  "fst (getInstalledPackages pip_frozen False (world_of [''requests==2.26.0''])) =
     Inr [''requests==2.26.0'', []]
   \<and> install 1 pip_frozen [''requests''] False (world_of [''requests==2.26.0'']) =
     Some (Inr 0,
       \<lparr>env_exists = True, manifest = [''requests==2.26.0''], env = (),
        trace = [Load,
                 Run [''.ppm.env/bin/pip'', ''freeze''],
                 Run [''.ppm.env/bin/pip'', ''install'', ''requests''],
                 Save [''requests==2.26.0''],
                 Run [''.ppm.env/bin/pip'', ''check'']]\<rparr>)"
  by (simp add: pip_frozen_def model_defs)

text \<open>
  C5, as the code has it. \<open>getMissingDependencies\<close> raises on every non-zero exit code
  of the check, whatever the check printed, and returns the names parsed from the output
  only when the check exits 0.
\<close>

theorem getMissingDependencies_exit_code:
  "run sys [env_pip sys, ''check''] (env w) = (Some res, e') \<Longrightarrow>
   getMissingDependencies sys w =
     (if returncode res = 0 then Inr (findall_requires (stdout res))
      else Inl (Exception ''Failed to check for missing dependencies''),
      log (Run [env_pip sys, ''check'']) (w\<lparr>env := e'\<rparr>))"
  by (simp add: getMissingDependencies_def sp_run_def)

theorem getMissingDependencies_exit_code_witness:
  "run pip_cycle [env_pip pip_cycle, ''check''] (env (world_of [])) =
     (Some \<lparr>returncode = 0,
            stdout = ''A 1.0 requires B, which is not installed.'' @ [CHR 0x0A]
                       @ ''B 1.0 requires A, which is not installed.'' @ [CHR 0x0A]\<rparr>, ())
   \<and> fst (getMissingDependencies pip_cycle (world_of [])) = Inr [''B'', ''A'']"
proof -
  have r: "run pip_cycle [env_pip pip_cycle, ''check''] (env (world_of [])) =
     (Some \<lparr>returncode = 0,
            stdout = ''A 1.0 requires B, which is not installed.'' @ [CHR 0x0A]
                       @ ''B 1.0 requires A, which is not installed.'' @ [CHR 0x0A]\<rparr>, ())"
    by (simp add: pip_cycle_def model_defs)
  show ?thesis
    using r getMissingDependencies_exit_code [OF r] by (simp add: lazy_group_def)
qed

text \<open>
  C5, as the claim states it, fails: the check exits 1 and reports that \<^verbatim>\<open>a\<close> requires
  \<^verbatim>\<open>b\<close>; the name \<^verbatim>\<open>b\<close> is in the output, and \<open>getMissingDependencies\<close> raises
  instead of returning it.
\<close>

theorem check_reporting_problems_raises:
  "findall_requires (''a 1.0 requires b, which is not installed.'' @ [CHR 0x0A]) = [''b'']
   \<and> fst (getMissingDependencies pip_problems (world_of [])) =
     Inl (Exception ''Failed to check for missing dependencies'')"
  by (simp add: pip_problems_def model_defs)

subsection \<open>No duplicate is added to the dependency list\<close>

text \<open>
  The installer calls and the creation of the environment leave the manifest file alone;
  the only change of the dependency list in \<open>install\<close> is the guarded append of
  \<open>add_packages\<close>, and the only write of the file is the save of that list.
\<close>

lemma sp_run_manifest: "sp_run sys cmd w = (r, w') \<Longrightarrow> manifest w' = manifest w"
  by (auto simp: sp_run_def log_def split: prod.splits)

lemma getInstalledPackages_manifest:
  "getInstalledPackages sys glob w = (r, w') \<Longrightarrow> manifest w' = manifest w"
  by (auto simp: getInstalledPackages_def split: prod.splits option.splits if_splits
      dest: sp_run_manifest)

lemma getMissingDependencies_manifest:
  "getMissingDependencies sys w = (r, w') \<Longrightarrow> manifest w' = manifest w"
  by (auto simp: getMissingDependencies_def split: prod.splits option.splits if_splits
      dest: sp_run_manifest)

lemma add_packages_distinct:
  "distinct deps \<Longrightarrow> add_packages ps deps = (r, deps') \<Longrightarrow> distinct deps'"
proof (induction ps arbitrary: deps)
  case Nil
  then show ?case by simp
next
  case (Cons p ps)
  show ?case
  proof (cases "rsplit1 CHR ''-'' p")
    case None
    with Cons.prems show ?thesis by simp
  next
    case (Some nv)
    obtain name version where nv: "nv = (name, version)" by (cases nv)
    let ?deps1 = "if name @ ''=='' @ version \<in> set deps then deps
                  else deps @ [name @ ''=='' @ version]"
    have "distinct ?deps1" using Cons.prems(1) by simp
    moreover have "add_packages ps ?deps1 = (r, deps')"
      using Cons.prems(2) Some nv by simp
    ultimately show ?thesis by (rule Cons.IH)
  qed
qed

lemma process_lines_distinct:
  "distinct deps \<Longrightarrow> process_lines ls deps = (r, deps') \<Longrightarrow> distinct deps'"
proof (induction ls arbitrary: deps)
  case Nil
  then show ?case by simp
next
  case (Cons l ls)
  show ?case
  proof (cases "prefix ''Successfully installed'' l")
    case True
    obtain r1 d1 where a: "add_packages (drop 2 (py_split '' '' l)) deps = (r1, d1)"
      by (cases "add_packages (drop 2 (py_split '' '' l)) deps")
    then have d1: "distinct d1" using Cons.prems(1) add_packages_distinct by blast
    show ?thesis
    proof (cases r1)
      case None
      with True a Cons.prems(2) have "process_lines ls d1 = (r, deps')" by simp
      with d1 show ?thesis by (rule Cons.IH)
    next
      case (Some e)
      with True a Cons.prems(2) have "deps' = d1" by simp
      with d1 show ?thesis by simp
    qed
  next
    case False
    with Cons.prems(2) have "process_lines ls deps = (r, deps')" by simp
    with Cons.prems(1) show ?thesis by (rule Cons.IH)
  qed
qed

lemma installPackage_distinct:
  assumes "distinct config" and "distinct (manifest w)"
    and "installPackage sys glob package version installDeps config w = (r, config', w')"
  shows "distinct config' \<and> distinct (manifest w')"
  using assms
  by (auto simp: installPackage_def Let_def save_def log_def
      split: prod.splits option.splits if_splits
      dest: sp_run_manifest process_lines_distinct)

lemma names_loop_distinct:
  "distinct config \<Longrightarrow> distinct (manifest w) \<Longrightarrow>
   names_loop sys glob installed names config w = (r, config', w') \<Longrightarrow>
   distinct config' \<and> distinct (manifest w')"
proof (induction names arbitrary: config w)
  case Nil
  then show ?case by simp
next
  case (Cons package rest)
  show ?case
  proof (cases "package \<in> set installed")
    case True
    with Cons.prems have "names_loop sys glob installed rest config w = (r, config', w')" by simp
    with Cons.prems(1,2) show ?thesis by (rule Cons.IH)
  next
    case False
    obtain r1 c1 w1 where ip: "installPackage sys glob package None False config w = (r1, c1, w1)"
      by (cases "installPackage sys glob package None False config w")
    then have d: "distinct c1 \<and> distinct (manifest w1)"
      using Cons.prems(1,2) installPackage_distinct by blast
    show ?thesis
    proof (cases r1)
      case (Inl e)
      with False ip Cons.prems(3) d show ?thesis by auto
    next
      case (Inr c)
      with False ip Cons.prems(3) have "names_loop sys glob installed rest c1 w1 = (r, config', w')"
        by simp
      with d show ?thesis using Cons.IH by blast
    qed
  qed
qed

lemma deps_loop_distinct:
  "distinct config \<Longrightarrow> distinct (manifest w) \<Longrightarrow>
   deps_loop k sys glob installed i config w = Some (r, config', w') \<Longrightarrow>
   distinct config' \<and> distinct (manifest w')"
proof (induction k arbitrary: i config w)
  case 0
  then show ?case by (auto split: if_splits)
next
  case (Suc k)
  show ?case
  proof (cases "length config \<le> i")
    case True
    with Suc.prems show ?thesis by auto
  next
    case False
    note notend = this
    show ?thesis
    proof (cases "config ! i \<in> set installed")
      case True
      with notend Suc.prems have "deps_loop k sys glob installed (Suc i) config w = Some (r, config', w')"
        by simp
      with Suc.prems(1,2) show ?thesis by (rule Suc.IH)
    next
      case False
      obtain r1 c1 w1 where ip: "installPackage sys glob (config ! i) None False config w = (r1, c1, w1)"
        by (cases "installPackage sys glob (config ! i) None False config w")
      then have d: "distinct c1 \<and> distinct (manifest w1)"
        using Suc.prems(1,2) installPackage_distinct by blast
      show ?thesis
      proof (cases r1)
        case (Inl e)
        with False notend ip Suc.prems(3) d show ?thesis by auto
      next
        case (Inr c)
        with False notend ip Suc.prems(3)
        have "deps_loop k sys glob installed (Suc i) c1 w1 = Some (r, config', w')"
          by simp
        with d show ?thesis using Suc.IH by blast
      qed
    qed
  qed
qed

lemma for_missing_invariant:
  assumes step: "\<And>dep w r w'. P w \<Longrightarrow> rec dep w = Some (r, w') \<Longrightarrow> P w'"
  shows "P w \<Longrightarrow> for_missing rec deps w = Some (r, w') \<Longrightarrow> P w'"
proof (induction deps arbitrary: w)
  case Nil
  then show ?case by simp
next
  case (Cons dep deps)
  from Cons.prems(2) obtain r1 w1 where r1: "rec dep w = Some (r1, w1)"
    by (cases "rec dep w") auto
  then have p1: "P w1" using step Cons.prems(1) by blast
  show ?case
  proof (cases r1)
    case (Inl e)
    with r1 Cons.prems(2) p1 show ?thesis by auto
  next
    case (Inr c)
    with r1 Cons.prems(2) have "for_missing rec deps w1 = Some (r, w')" by simp
    with p1 show ?thesis by (rule Cons.IH)
  qed
qed

lemma install_distinct:
  "distinct (manifest w) \<Longrightarrow> install n sys names glob w = Some (r, w') \<Longrightarrow>
   distinct (manifest w')"
proof (induction n arbitrary: names w r w')
  case 0
  then show ?case by simp
next
  case (Suc n)
  let ?w2 = "if \<not> env_exists (log Load w) then createVenv sys (log Load w) else log Load w"
  have m2: "manifest ?w2 = manifest w" by (simp add: createVenv_def log_def)
  obtain ri w3 where gi: "getInstalledPackages sys glob ?w2 = (ri, w3)"
    by (cases "getInstalledPackages sys glob ?w2")
  then have m3: "manifest w3 = manifest w"
    using getInstalledPackages_manifest m2 by metis
  show ?case
  proof (cases ri)
    case (Inl e)
    with gi Suc.prems(2) have "w' = w3" by (simp add: load_def)
    with m3 Suc.prems(1) show ?thesis by simp
  next
    case (Inr installed)
    let ?pass = "if names = [] then deps_loop n sys glob installed 0 (manifest w) w3
                 else Some (names_loop sys glob installed names (manifest w) w3)"
    from Inr gi Suc.prems(2) obtain rp c4 w4 where pass: "?pass = Some (rp, c4, w4)"
      by (cases ?pass) (auto simp: load_def)
    have d4: "distinct (manifest w4)"
    proof (cases "names = []")
      case True
      with pass have "deps_loop n sys glob installed 0 (manifest w) w3 = Some (rp, c4, w4)" by simp
      then show ?thesis using deps_loop_distinct [of "manifest w" w3] Suc.prems(1) m3 by simp
    next
      case False
      with pass have "names_loop sys glob installed names (manifest w) w3 = (rp, c4, w4)" by simp
      then show ?thesis using names_loop_distinct [of "manifest w" w3] Suc.prems(1) m3 by simp
    qed
    show ?thesis
    proof (cases rp)
      case (Some e)
      with Inr gi pass Suc.prems(2) have "w' = w4" by (simp add: load_def)
      with d4 show ?thesis by simp
    next
      case None
      obtain rm w5 where gm: "getMissingDependencies sys w4 = (rm, w5)"
        by (cases "getMissingDependencies sys w4")
      then have d5: "distinct (manifest w5)"
        using getMissingDependencies_manifest d4 by metis
      show ?thesis
      proof (cases rm)
        case (Inl e)
        with None Inr gi pass gm Suc.prems(2) have "w' = w5" by (simp add: load_def)
        with d5 show ?thesis by simp
      next
        case (Inr missing)
        with None \<open>ri = Inr installed\<close> gi pass gm Suc.prems(2)
        have fm: "for_missing (\<lambda>dep. install n sys [dep] glob) missing w5 = Some (r, w')"
          by (simp add: load_def)
        show ?thesis
          using for_missing_invariant [where P = "\<lambda>w. distinct (manifest w)"
              and rec = "\<lambda>dep. install n sys [dep] glob", OF _ d5 fm] Suc.IH
          by blast
      qed
    qed
  qed
qed

text \<open>
  C10. When the dependency list of the manifest has no duplicate before an isolated
  \<open>install\<close>, it has none afterwards, whether the command returns or raises, at every
  depth of the recursion: each \<^verbatim>\<open>name==version\<close> made from a token of a
  \<^verbatim>\<open>Successfully installed\<close> line is appended only if it is not in the list yet.
\<close>

theorem install_adds_no_duplicate:
  assumes "distinct (manifest w)"
  shows "(install n sys names False w = Some (r, w') \<longrightarrow> distinct (manifest w'))
       \<and> (add_packages tokens (manifest w) = (e, deps') \<longrightarrow> distinct deps')"
  using assms install_distinct add_packages_distinct by blast

theorem install_adds_no_duplicate_witness:
  "distinct (manifest (world_of [''a==1.0'']))
   \<and> install 1 pip_reporting [''a'', ''b''] False (world_of [''a==1.0'']) =
       Some (Inr 0,
         \<lparr>env_exists = True, manifest = [''a==1.0'', ''b==1.0''], env = (),
          trace = [Load,
                   Run [''.ppm.env/bin/pip'', ''freeze''],
                   Run [''.ppm.env/bin/pip'', ''install'', ''a''],
                   Save [''a==1.0''],
                   Run [''.ppm.env/bin/pip'', ''install'', ''b''],
                   Save [''a==1.0'', ''b==1.0''],
                   Run [''.ppm.env/bin/pip'', ''check'']]\<rparr>)
   \<and> distinct [''a==1.0'', ''b==1.0'']
   \<and> add_packages [''a-1.0'', ''b-1.0''] (manifest (world_of [''a==1.0''])) =
       (None, [''a==1.0'', ''b==1.0''])"
proof -
  have d: "distinct (manifest (world_of [''a==1.0'']))"
    by (simp add: world_of_def)
  have i: "install 1 pip_reporting [''a'', ''b''] False (world_of [''a==1.0'']) =
       Some (Inr 0,
         \<lparr>env_exists = True, manifest = [''a==1.0'', ''b==1.0''], env = (),
          trace = [Load,
                   Run [''.ppm.env/bin/pip'', ''freeze''],
                   Run [''.ppm.env/bin/pip'', ''install'', ''a''],
                   Save [''a==1.0''],
                   Run [''.ppm.env/bin/pip'', ''install'', ''b''],
                   Save [''a==1.0'', ''b==1.0''],
                   Run [''.ppm.env/bin/pip'', ''check'']]\<rparr>)"
    by (simp add: pip_reporting_def model_defs)
  have a: "add_packages [''a-1.0'', ''b-1.0''] (manifest (world_of [''a==1.0''])) =
       (None, [''a==1.0'', ''b==1.0''])"
    by (simp add: world_of_def)
  show ?thesis
    using d i a install_adds_no_duplicate [OF d, of 1 pip_reporting "[''a'', ''b'']"]
    by simp
qed

subsection \<open>A check that reports a cycle\<close>
















subsection \<open>Writes of the manifest and calls of the installer in a trace\<close>

lemma saves_append: "saves (evs @ evs') = saves evs @ saves evs'"
  by (induction evs rule: saves.induct) simp_all

lemma runs_append: "runs (evs @ evs') = runs evs @ runs evs'"
  by (induction evs rule: runs.induct) simp_all

lemma install_calls_append:
  "install_calls (evs @ evs') = install_calls evs @ install_calls evs'"
  by (simp add: install_calls_def runs_append)

lemma install_calls_simps:
  "install_calls [] = []"
  "install_calls (Load # evs) = install_calls evs"
  "install_calls (CreateVenv # evs) = install_calls evs"
  "install_calls (Save deps # evs) = install_calls evs"
  "install_calls (Run cmd # evs) =
     (if subcommand cmd = ''install'' then cmd # install_calls evs else install_calls evs)"
  by (simp_all add: install_calls_def)

lemma sp_run_saves: "sp_run sys cmd w = (r, w') \<Longrightarrow> saves (trace w') = saves (trace w)"
  by (auto simp: sp_run_def log_def saves_append split: prod.splits)

subsection \<open>Nothing to install\<close>

text \<open>
  C9. With an empty dependency list in the manifest, \<open>install\<close> of no name in isolated
  mode calls the \<^verbatim>\<open>install\<close> subcommand of the installer zero times, writes nothing
  and returns 0, at every bound on the recursion. The only commands it runs are the
  freeze that gives the snapshot and the check; both exit 0 and the check has nothing to
  report, as for an environment in which nothing is installed. This holds whatever the
  snapshot is, the empty one included.
\<close>

theorem install_nothing_to_do:
  assumes "manifest w = []"
    and "run sys [env_pip sys, ''freeze''] (if env_exists w then env w else create sys (env w)) =
           (Some fr, e1)"
    and "returncode fr = 0"
    and "run sys [env_pip sys, ''check''] e1 = (Some ck, e2)" and "returncode ck = 0"
    and "findall_requires (stdout ck) = []"
  shows "install (Suc n) sys [] False w =
     Some (Inr 0,
       w\<lparr>env_exists := True, env := e2,
         trace := trace w @ [Load] @ (if env_exists w then [] else [CreateVenv])
                    @ [Run [env_pip sys, ''freeze''], Run [env_pip sys, ''check'']]\<rparr>)
   \<and> map_option (install_calls \<circ> trace \<circ> snd) (install (Suc n) sys [] False w) =
       Some (install_calls (trace w))
   \<and> map_option (saves \<circ> trace \<circ> snd) (install (Suc n) sys [] False w) =
       Some (saves (trace w))"
proof -
  have r: "install (Suc n) sys [] False w =
     Some (Inr 0,
       w\<lparr>env_exists := True, env := e2,
         trace := trace w @ [Load] @ (if env_exists w then [] else [CreateVenv])
                    @ [Run [env_pip sys, ''freeze''], Run [env_pip sys, ''check'']]\<rparr>)"
  proof (cases "env_exists w")
    case True
    with assms show ?thesis
      by (cases n) (simp_all add: load_def log_def getInstalledPackages_def sp_run_def
          getMissingDependencies_def)
  next
    case False
    with assms show ?thesis
      by (cases n) (simp_all add: load_def createVenv_def log_def getInstalledPackages_def
          sp_run_def getMissingDependencies_def)
  qed
  show ?thesis
    unfolding r
    by (simp add: install_calls_append install_calls_simps saves_append subcommand_def)
qed

theorem install_nothing_to_do_witness:
  "manifest (world_of []) = []
   \<and> run pip_ok [env_pip pip_ok, ''freeze'']
         (if env_exists (world_of []) then env (world_of []) else create pip_ok (env (world_of []))) =
       (Some \<lparr>returncode = 0, stdout = []\<rparr>, ())
   \<and> run pip_ok [env_pip pip_ok, ''check''] () = (Some \<lparr>returncode = 0, stdout = []\<rparr>, ())
   \<and> findall_requires [] = []
   \<and> install 1 pip_ok [] False (world_of []) =
       Some (Inr 0,
         \<lparr>env_exists = True, manifest = [], env = (),
          trace = [Load,
                   Run [''.ppm.env/bin/pip'', ''freeze''],
                   Run [''.ppm.env/bin/pip'', ''check'']]\<rparr>)
   \<and> map_option (install_calls \<circ> trace \<circ> snd) (install 1 pip_ok [] False (world_of [])) = Some []
   \<and> map_option (saves \<circ> trace \<circ> snd) (install 1 pip_ok [] False (world_of [])) = Some []"
proof -
  have m: "manifest (world_of []) = []"
    by (simp add: world_of_def)
  have f: "run pip_ok [env_pip pip_ok, ''freeze'']
         (if env_exists (world_of []) then env (world_of []) else create pip_ok (env (world_of []))) =
       (Some \<lparr>returncode = 0, stdout = []\<rparr>, ())"
    by (simp add: pip_ok_def scripted_def env_pip_def envPath_def BIN_FOLDER_def)
  have c: "run pip_ok [env_pip pip_ok, ''check''] () = (Some \<lparr>returncode = 0, stdout = []\<rparr>, ())"
    by (simp add: pip_ok_def scripted_def env_pip_def envPath_def BIN_FOLDER_def)
  have e: "env_pip pip_ok = ''.ppm.env/bin/pip''"
    by (simp add: pip_ok_def scripted_def env_pip_def envPath_def BIN_FOLDER_def)
  have i: "install (Suc 0) pip_ok [] False (world_of []) =
     Some (Inr 0,
       (world_of [])\<lparr>env_exists := True, env := (),
         trace := trace (world_of []) @ [Load] @ (if env_exists (world_of []) then [] else [CreateVenv])
                    @ [Run [env_pip pip_ok, ''freeze''], Run [env_pip pip_ok, ''check'']]\<rparr>)
   \<and> map_option (install_calls \<circ> trace \<circ> snd) (install (Suc 0) pip_ok [] False (world_of [])) =
       Some (install_calls (trace (world_of [])))
   \<and> map_option (saves \<circ> trace \<circ> snd) (install (Suc 0) pip_ok [] False (world_of [])) =
       Some (saves (trace (world_of [])))"
    by (rule install_nothing_to_do [OF m f _ c]) simp_all
  show ?thesis
    using m f c i
    by (simp add: world_of_def e install_calls_simps subcommand_def del: install.simps)
qed

subsection \<open>When the manifest is saved\<close>

lemma installPackage_trace:
  assumes "run sys ([env_pip sys, ''install'', package] @ (if installDeps then [''--no-deps''] else []))
             (env w) = (res, e')"
  shows "trace (snd (snd (installPackage sys False package None installDeps config w))) =
     trace w
       @ [Run ([env_pip sys, ''install'', package] @ (if installDeps then [''--no-deps''] else []))]
       @ (case res of
            None \<Rightarrow> []
          | Some c \<Rightarrow>
              if returncode c = 0
                 \<and> fst (process_lines (py_split [CHR 0x0A] (stdout c)) config) = None
              then [Save (snd (process_lines (py_split [CHR 0x0A] (stdout c)) config))]
              else [])"
  using assms
  by (auto simp: installPackage_def Let_def sp_run_def log_def save_def
      split: prod.splits option.splits)

lemma sp_run_calls:
  "sp_run sys cmd w = (r, w') \<Longrightarrow>
   install_calls (trace w') =
     install_calls (trace w) @ (if subcommand cmd = ''install'' then [cmd] else [])"
  by (auto simp: sp_run_def log_def install_calls_append install_calls_simps split: prod.splits)

lemma le_calls_refl: "le_calls w w"
  by (simp add: le_calls_def)

lemma le_calls_trans: "le_calls w w1 \<Longrightarrow> le_calls w1 w2 \<Longrightarrow> le_calls w w2"
  by (simp add: le_calls_def)

lemma sp_run_le_calls: "sp_run sys cmd w = (r, w') \<Longrightarrow> le_calls w w'"
  by (simp add: le_calls_def sp_run_saves sp_run_calls)

lemma getInstalledPackages_le_calls:
  "getInstalledPackages sys glob w = (r, w') \<Longrightarrow> le_calls w w'"
  by (auto simp: getInstalledPackages_def split: prod.splits option.splits if_splits
      dest: sp_run_le_calls)

lemma getMissingDependencies_le_calls:
  "getMissingDependencies sys w = (r, w') \<Longrightarrow> le_calls w w'"
  by (auto simp: getMissingDependencies_def split: prod.splits option.splits if_splits
      dest: sp_run_le_calls)

lemma installPackage_le_calls:
  assumes "installPackage sys glob package version installDeps config w = (r, config', w')"
  shows "le_calls w w'"
proof -
  let ?cmd = "[if glob then GLOBAL_PIP_EXECUTABLE sys else env_pip sys, ''install'',
               case version of None \<Rightarrow> package
               | Some v \<Rightarrow> if v = [] then package else package @ ''=='' @ v]
              @ (if installDeps then [''--no-deps''] else [])"
  obtain res w1 where sr: "sp_run sys ?cmd w = (res, w1)"
    by (cases "sp_run sys ?cmd w")
  have sub: "subcommand ?cmd = ''install''" by (simp add: subcommand_def)
  have s1: "saves (trace w1) = saves (trace w)" using sr by (rule sp_run_saves)
  have c1: "install_calls (trace w1) = install_calls (trace w) @ [?cmd]"
    using sp_run_calls [OF sr] sub by simp
  have "w' = w1 \<or> (\<exists>c. w' = save c w1)"
    using assms sr
    by (auto simp: installPackage_def Let_def split: option.splits if_splits prod.splits)
  then show ?thesis
    using s1 c1 by (auto simp: le_calls_def save_def log_def saves_append install_calls_append
        install_calls_simps)
qed

lemma names_loop_le_calls:
  "names_loop sys glob installed names config w = (r, config', w') \<Longrightarrow> le_calls w w'"
proof (induction names arbitrary: config w)
  case Nil
  then show ?case by (simp add: le_calls_refl)
next
  case (Cons package rest)
  show ?case
  proof (cases "package \<in> set installed")
    case True
    with Cons.prems have "names_loop sys glob installed rest config w = (r, config', w')" by simp
    then show ?thesis by (rule Cons.IH)
  next
    case False
    obtain r1 c1 w1 where ip: "installPackage sys glob package None False config w = (r1, c1, w1)"
      by (cases "installPackage sys glob package None False config w")
    then have l1: "le_calls w w1" by (rule installPackage_le_calls)
    show ?thesis
    proof (cases r1)
      case (Inl e)
      with False ip Cons.prems l1 show ?thesis by auto
    next
      case (Inr c)
      with False ip Cons.prems have "names_loop sys glob installed rest c1 w1 = (r, config', w')"
        by simp
      then have "le_calls w1 w'" by (rule Cons.IH)
      with l1 show ?thesis by (rule le_calls_trans)
    qed
  qed
qed

lemma deps_loop_le_calls:
  "deps_loop k sys glob installed i config w = Some (r, config', w') \<Longrightarrow> le_calls w w'"
proof (induction k arbitrary: i config w)
  case 0
  then show ?case by (auto simp: le_calls_refl split: if_splits)
next
  case (Suc k)
  show ?case
  proof (cases "length config \<le> i")
    case True
    with Suc.prems show ?thesis by (auto simp: le_calls_refl)
  next
    case False
    note notend = this
    show ?thesis
    proof (cases "config ! i \<in> set installed")
      case True
      with notend Suc.prems
      have "deps_loop k sys glob installed (Suc i) config w = Some (r, config', w')" by simp
      then show ?thesis by (rule Suc.IH)
    next
      case False
      obtain r1 c1 w1 where ip: "installPackage sys glob (config ! i) None False config w = (r1, c1, w1)"
        by (cases "installPackage sys glob (config ! i) None False config w")
      then have l1: "le_calls w w1" by (rule installPackage_le_calls)
      show ?thesis
      proof (cases r1)
        case (Inl e)
        with False notend ip Suc.prems l1 show ?thesis by auto
      next
        case (Inr c)
        with False notend ip Suc.prems
        have "deps_loop k sys glob installed (Suc i) c1 w1 = Some (r, config', w')" by simp
        then have "le_calls w1 w'" by (rule Suc.IH)
        with l1 show ?thesis by (rule le_calls_trans)
      qed
    qed
  qed
qed

lemma for_missing_le_calls:
  assumes "\<And>dep w r w'. rec dep w = Some (r, w') \<Longrightarrow> le_calls w w'"
  shows "for_missing rec deps w = Some (r, w') \<Longrightarrow> le_calls w w'"
proof (induction deps arbitrary: w)
  case Nil
  then show ?case by (simp add: le_calls_refl)
next
  case (Cons dep deps)
  from Cons.prems obtain r1 w1 where r1: "rec dep w = Some (r1, w1)"
    by (cases "rec dep w") auto
  then have l1: "le_calls w w1" by (rule assms)
  show ?case
  proof (cases r1)
    case (Inl e)
    with r1 Cons.prems l1 show ?thesis by auto
  next
    case (Inr c)
    with r1 Cons.prems have "for_missing rec deps w1 = Some (r, w')" by simp
    then have "le_calls w1 w'" by (rule Cons.IH)
    with l1 show ?thesis by (rule le_calls_trans)
  qed
qed

lemma install_le_calls:
  "install n sys names glob w = Some (r, w') \<Longrightarrow> le_calls w w'"
proof (induction n arbitrary: names w r w')
  case 0
  then show ?case by simp
next
  case (Suc n)
  let ?w2 = "if \<not> env_exists (log Load w) then createVenv sys (log Load w) else log Load w"
  have l2: "le_calls w ?w2"
    by (simp add: le_calls_def createVenv_def log_def saves_append install_calls_append
        install_calls_simps)
  obtain ri w3 where gi: "getInstalledPackages sys glob ?w2 = (ri, w3)"
    by (cases "getInstalledPackages sys glob ?w2")
  have l3: "le_calls w w3"
    using l2 getInstalledPackages_le_calls [OF gi] by (rule le_calls_trans)
  show ?case
  proof (cases ri)
    case (Inl e)
    with gi Suc.prems have "w' = w3" by (simp add: load_def)
    with l3 show ?thesis by simp
  next
    case (Inr installed)
    let ?pass = "if names = [] then deps_loop n sys glob installed 0 (manifest w) w3
                 else Some (names_loop sys glob installed names (manifest w) w3)"
    from Inr gi Suc.prems obtain rp c4 w4 where pass: "?pass = Some (rp, c4, w4)"
      by (cases ?pass) (auto simp: load_def)
    have "le_calls w3 w4"
      using pass deps_loop_le_calls names_loop_le_calls by (cases "names = []") auto
    with l3 have l4: "le_calls w w4" by (rule le_calls_trans)
    show ?thesis
    proof (cases rp)
      case (Some e)
      with Inr gi pass Suc.prems have "w' = w4" by (simp add: load_def)
      with l4 show ?thesis by simp
    next
      case None
      obtain rm w5 where gm: "getMissingDependencies sys w4 = (rm, w5)"
        by (cases "getMissingDependencies sys w4")
      have l5: "le_calls w w5"
        using l4 getMissingDependencies_le_calls [OF gm] by (rule le_calls_trans)
      show ?thesis
      proof (cases rm)
        case (Inl e)
        with None Inr gi pass gm Suc.prems have "w' = w5" by (simp add: load_def)
        with l5 show ?thesis by simp
      next
        case (Inr missing)
        with None \<open>ri = Inr installed\<close> gi pass gm Suc.prems
        have fm: "for_missing (\<lambda>dep. install n sys [dep] glob) missing w5 = Some (r, w')"
          by (simp add: load_def)
        have "le_calls w5 w'"
          by (rule for_missing_le_calls [where rec = "\<lambda>dep. install n sys [dep] glob", OF _ fm])
            (rule Suc.IH)
        with l5 show ?thesis by (rule le_calls_trans)
      qed
    qed
  qed
qed

text \<open>
  C8, as the code has it. The save is the last statement of \<open>installPackage\<close>, not of
  \<open>install\<close>. In isolated mode \<open>installPackage\<close> runs the \<^verbatim>\<open>install\<close> subcommand
  and writes the manifest directly after it exactly when the installer exits 0 and its
  output is parsed without error, with the dependency list as it stands then. An
  \<open>install\<close>, its recursive calls included, so writes the manifest at most as many times
  as it calls the \<^verbatim>\<open>install\<close> subcommand, whether it returns or raises.
\<close>

theorem manifest_saved_after_each_installed_entry:
  "(run sys ([env_pip sys, ''install'', package] @ (if installDeps then [''--no-deps''] else []))
      (env w) = (res, e') \<longrightarrow>
    trace (snd (snd (installPackage sys False package None installDeps config w))) =
      trace w
        @ [Run ([env_pip sys, ''install'', package] @ (if installDeps then [''--no-deps''] else []))]
        @ (case res of
             None \<Rightarrow> []
           | Some c \<Rightarrow>
               if returncode c = 0
                  \<and> fst (process_lines (py_split [CHR 0x0A] (stdout c)) config) = None
               then [Save (snd (process_lines (py_split [CHR 0x0A] (stdout c)) config))]
               else []))
   \<and> (install n sys names glob w = Some (r, w') \<longrightarrow>
        length (saves (trace w')) + length (install_calls (trace w))
          \<le> length (saves (trace w)) + length (install_calls (trace w')))"
proof -
  have one: "run sys ([env_pip sys, ''install'', package] @ (if installDeps then [''--no-deps''] else []))
      (env w) = (res, e') \<longrightarrow>
    trace (snd (snd (installPackage sys False package None installDeps config w))) =
      trace w
        @ [Run ([env_pip sys, ''install'', package] @ (if installDeps then [''--no-deps''] else []))]
        @ (case res of
             None \<Rightarrow> []
           | Some c \<Rightarrow>
               if returncode c = 0
                  \<and> fst (process_lines (py_split [CHR 0x0A] (stdout c)) config) = None
               then [Save (snd (process_lines (py_split [CHR 0x0A] (stdout c)) config))]
               else [])"
    by (rule impI) (rule installPackage_trace)
  have all: "install n sys names glob w = Some (r, w') \<longrightarrow>
        length (saves (trace w')) + length (install_calls (trace w))
          \<le> length (saves (trace w)) + length (install_calls (trace w'))"
    using install_le_calls [of n sys names glob w r w'] by (simp add: le_calls_def)
  show ?thesis
    by (rule conjI [OF one all])
qed

theorem manifest_saved_after_each_installed_entry_witness:
  "run pip_reporting ([env_pip pip_reporting, ''install'', ''a''] @ (if False then [''--no-deps''] else []))
      (env (world_of [])) =
     (Some \<lparr>returncode = 0, stdout = ''Successfully installed a-1.0'' @ [CHR 0x0A]\<rparr>, ())
   \<and> trace (snd (snd (installPackage pip_reporting False ''a'' None False [] (world_of [])))) =
       [Run [''.ppm.env/bin/pip'', ''install'', ''a''], Save [''a==1.0'']]
   \<and> install 1 pip_reporting [''a'', ''b''] False (world_of []) =
       Some (Inr 0,
         \<lparr>env_exists = True, manifest = [''a==1.0'', ''b==1.0''], env = (),
          trace = [Load,
                   Run [''.ppm.env/bin/pip'', ''freeze''],
                   Run [''.ppm.env/bin/pip'', ''install'', ''a''],
                   Save [''a==1.0''],
                   Run [''.ppm.env/bin/pip'', ''install'', ''b''],
                   Save [''a==1.0'', ''b==1.0''],
                   Run [''.ppm.env/bin/pip'', ''check'']]\<rparr>)
   \<and> length (saves [Load,
                   Run [''.ppm.env/bin/pip'', ''freeze''],
                   Run [''.ppm.env/bin/pip'', ''install'', ''a''],
                   Save [''a==1.0''],
                   Run [''.ppm.env/bin/pip'', ''install'', ''b''],
                   Save [''a==1.0'', ''b==1.0''],
                   Run [''.ppm.env/bin/pip'', ''check'']]) = 2
   \<and> length (install_calls [Load,
                   Run [''.ppm.env/bin/pip'', ''freeze''],
                   Run [''.ppm.env/bin/pip'', ''install'', ''a''],
                   Save [''a==1.0''],
                   Run [''.ppm.env/bin/pip'', ''install'', ''b''],
                   Save [''a==1.0'', ''b==1.0''],
                   Run [''.ppm.env/bin/pip'', ''check'']]) = 2"
proof -
  have r: "run pip_reporting ([env_pip pip_reporting, ''install'', ''a''] @ (if False then [''--no-deps''] else []))
      (env (world_of [])) =
     (Some \<lparr>returncode = 0, stdout = ''Successfully installed a-1.0'' @ [CHR 0x0A]\<rparr>, ())"
    by (simp add: pip_reporting_def model_defs)
  have i: "install 1 pip_reporting [''a'', ''b''] False (world_of []) =
       Some (Inr 0,
         \<lparr>env_exists = True, manifest = [''a==1.0'', ''b==1.0''], env = (),
          trace = [Load,
                   Run [''.ppm.env/bin/pip'', ''freeze''],
                   Run [''.ppm.env/bin/pip'', ''install'', ''a''],
                   Save [''a==1.0''],
                   Run [''.ppm.env/bin/pip'', ''install'', ''b''],
                   Save [''a==1.0'', ''b==1.0''],
                   Run [''.ppm.env/bin/pip'', ''check'']]\<rparr>)"
    by (simp add: pip_reporting_def model_defs)
  have e: "env_pip pip_reporting = ''.ppm.env/bin/pip''"
    by (simp add: pip_reporting_def scripted_def env_pip_def envPath_def BIN_FOLDER_def)
  have t: "trace (snd (snd (installPackage pip_reporting False ''a'' None False [] (world_of [])))) =
       [Run [''.ppm.env/bin/pip'', ''install'', ''a''], Save [''a==1.0'']]"
    using r manifest_saved_after_each_installed_entry [where sys = pip_reporting
        and package = "''a''" and installDeps = False and w = "world_of []" and config = "[]"
        and res = "Some \<lparr>returncode = 0, stdout = ''Successfully installed a-1.0'' @ [CHR 0x0A]\<rparr>"
        and e' = "()"]
    by (simp add: e world_of_def py_split_def)
  show ?thesis
    using r i t by (simp add: install_calls_simps subcommand_def del: install.simps)
qed

text \<open>
  C8, as the claim states it, fails: one top-level \<open>install\<close> of two names, with no
  recursive call (the check reports nothing), writes the manifest twice, the first time
  in the middle of the pass.
\<close>

theorem install_of_two_names_saves_twice:
  "install 1 pip_reporting [''a'', ''b''] False (world_of []) =
     Some (Inr 0,
       \<lparr>env_exists = True, manifest = [''a==1.0'', ''b==1.0''], env = (),
        trace = [Load,
                 Run [''.ppm.env/bin/pip'', ''freeze''],
                 Run [''.ppm.env/bin/pip'', ''install'', ''a''],
                 Save [''a==1.0''],
                 Run [''.ppm.env/bin/pip'', ''install'', ''b''],
                 Save [''a==1.0'', ''b==1.0''],
                 Run [''.ppm.env/bin/pip'', ''check'']]\<rparr>)"
  by (simp add: pip_reporting_def model_defs)

subsection \<open>Global mode and the manifest\<close>























end
